theory Spec2Isabelle
  imports Main "HOL-Library.Word"
begin

section \<open>Data model\<close>

text \<open>
  The protocol messages of \<^verbatim>\<open>protos/example.proto\<close>: \<^verbatim>\<open>GetFrameRequest\<close> and
  \<^verbatim>\<open>Frame\<close> each carry one field, \<^verbatim>\<open>int32 id = 1\<close>. Go's \<^verbatim>\<open>int32\<close> is a 32-bit
  two's complement integer, read with \<open>sint\<close>.
\<close>

type_synonym int32 = "32 word"

record GetFrameRequest =
  GetFrameRequest_Id :: int32

record Frame =
  Frame_Id :: int32

text \<open>
  A Go \<^verbatim>\<open>error\<close> is represented by its message (what \<^verbatim>\<open>err.Error()\<close> and the
  \<^verbatim>\<open>%v\<close> verb print); the \<^verbatim>\<open>nil\<close> error is \<open>None\<close> of \<open>error option\<close>.
\<close>

type_synonym error = string

datatype panic =
    NilPointerDereference
  | MultipleRegistrations string

text \<open>
  A \<^verbatim>\<open>context.Context\<close>, as the constructors of package \<^verbatim>\<open>context\<close> build it.
\<close>

datatype Context =
    Background
  | TODO
  | WithCancel Context bool
  | WithDeadline Context nat
  | WithValue Context string string

text \<open>
  \<^verbatim>\<open>*grpc.Server\<close> and \<^verbatim>\<open>net.Listener\<close> are objects of the libraries: a server is a
  reference, a listener is known by the network and address it is bound to.
\<close>

type_synonym grpc_Server = nat

datatype listener = Listener string string

text \<open>
  \<^verbatim>\<open>type GrpcServer struct { address string; server *grpc.Server;
  pb.UnimplementedFrameServiceServer }\<close>. The embedded struct has no field.
\<close>

record GrpcServer =
  address :: string
  server :: grpc_Server

text \<open>
  A call that blocks in a serve loop either never returns or returns a value.
\<close>

datatype 'a outcome = Blocked | Returned 'a

text \<open>
  The libraries the program calls are parameters of the model: what
  \<^verbatim>\<open>grpc.NewServer\<close>, \<^verbatim>\<open>net.Listen\<close>, \<^verbatim>\<open>(*grpc.Server).Serve\<close> and
  \<^verbatim>\<open>http.ListenAndServe\<close> answer is up to the environment the process runs in.
\<close>

record env =
  grpc_NewServer :: grpc_Server
  net_Listen :: "string \<Rightarrow> string \<Rightarrow> error + listener"
  grpc_Serve :: "grpc_Server \<Rightarrow> listener \<Rightarrow> error option outcome"
  http_ListenAndServe :: "string \<Rightarrow> error option outcome"

text \<open>The library calls a function makes, in the order it makes them.\<close>

datatype call =
    RegisterFrameServiceServer grpc_Server
  | Listen string string
  | Serve grpc_Server listener

fun is_Serve :: "call \<Rightarrow> bool" where
  "is_Serve (Serve g lis) = True"
| "is_Serve c = False"

section \<open>The RPC listener: \<^verbatim>\<open>internal/grpc_server.go\<close>\<close>

text \<open>
  \<^verbatim>\<open>func NewGrpcServer(address string) *GrpcServer {
    server := grpc.NewServer()
    return &GrpcServer{address: address, server: server} }\<close>
\<close>

definition NewGrpcServer :: "env \<Rightarrow> string \<Rightarrow> GrpcServer" where
  "NewGrpcServer e addr = \<lparr>address = addr, server = grpc_NewServer e\<rparr>"

text \<open>
  \<^verbatim>\<open>func (s *GrpcServer) Start() error {
    pb.RegisterFrameServiceServer(s.server, s)
    lis, err := net.Listen("tcp", s.address)
    if err != nil { return err }
    return s.server.Serve(lis) }\<close>

  The method is a transformer of the receiver: it yields what it returns (or that it
  never returns), the library calls it made, and the receiver as it leaves it.
\<close>

definition Start :: "env \<Rightarrow> GrpcServer \<Rightarrow> (error option outcome \<times> call list) \<times> GrpcServer" where
  "Start e s =
     (case net_Listen e ''tcp'' (address s) of
        Inl err \<Rightarrow>
          ((Returned (Some err),
            [RegisterFrameServiceServer (server s), Listen ''tcp'' (address s)]), s)
      | Inr lis \<Rightarrow>
          ((grpc_Serve e (server s) lis,
            [RegisterFrameServiceServer (server s), Listen ''tcp'' (address s),
             Serve (server s) lis]), s))"

text \<open>
  \<^verbatim>\<open>func (s *GrpcServer) GetFrame(ctx context.Context, req *pb.GetFrameRequest)
      (*pb.Frame, error) { return &pb.Frame{Id: req.Id}, nil }\<close>

  \<^verbatim>\<open>req\<close> is a pointer: reading \<^verbatim>\<open>req.Id\<close> through \<^verbatim>\<open>nil\<close> panics. The frame
  returned is a fresh one, never \<^verbatim>\<open>nil\<close>.
\<close>

definition GetFrame ::
  "Context \<Rightarrow> GetFrameRequest option \<Rightarrow> GrpcServer \<Rightarrow> (panic + Frame \<times> error option) \<times> GrpcServer"
where
  "GetFrame ctx req s =
     (case req of
        None \<Rightarrow> (Inl NilPointerDereference, s)
      | Some r \<Rightarrow> (Inr (\<lparr>Frame_Id = GetFrameRequest_Id r\<rparr>, None), s))"

text \<open>
  A client that invokes \<^verbatim>\<open>GetFrame\<close> on one server again and again with the same
  request, once per context of the list, and collects what each invocation returns.
\<close>

fun invocations ::
  "Context list \<Rightarrow> GetFrameRequest option \<Rightarrow> GrpcServer \<Rightarrow> (panic + Frame \<times> error option) list \<times> GrpcServer"
where
  "invocations [] req s = ([], s)"
| "invocations (ctx # ctxs) req s =
     (case GetFrame ctx req s of
        (r, s') \<Rightarrow> (case invocations ctxs req s' of (rs, s'') \<Rightarrow> (r # rs, s'')))"

section \<open>The entry point: \<^verbatim>\<open>cmd/main.go\<close>\<close>

text \<open>
  \<^verbatim>\<open>fmt.Println(x)\<close> writes \<open>x\<close> and a newline. Standard output is the list of
  the strings written to it, oldest first.
\<close>

definition Println :: "string \<Rightarrow> string" where
  "Println x = x @ [CHR 0x0A]"

text \<open>
  \<^verbatim>\<open>func main() {
    fmt.Println("Starting server...")
    server := internal.NewGrpcServer(":8080")
    err := server.Start()
    if err != nil {
      fmt.Printf("Error starting server: %v\n", err)
      os.Exit(1) } }\<close>

  The result is what was written to standard output, the library calls made, and how
  the process ends: it never ends while \<^verbatim>\<open>Start\<close> blocks, it exits with status 0
  when \<^verbatim>\<open>main\<close> returns, and with the status given to \<^verbatim>\<open>os.Exit\<close>.
\<close>

definition main :: "env \<Rightarrow> string list \<times> call list \<times> int outcome" where
  "main e =
     (case Start e (NewGrpcServer e '':8080'') of
        ((err, calls), s) \<Rightarrow>
          (case err of
             Blocked \<Rightarrow> ([Println ''Starting server...''], calls, Blocked)
           | Returned None \<Rightarrow> ([Println ''Starting server...''], calls, Returned 0)
           | Returned (Some er) \<Rightarrow>
               ([Println ''Starting server...'', ''Error starting server: '' @ er @ [CHR 0x0A]],
                calls, Returned 1)))"

section \<open>The health listener: \<^verbatim>\<open>internal/http_server\<close>\<close>

text \<open>
  What the program uses of \<^verbatim>\<open>net/http\<close>. A request is known by its method and the
  path of its URL. A \<^verbatim>\<open>ResponseWriter\<close> records whether the header was written, the
  status code written and the bytes of the body. \<^verbatim>\<open>WriteHeader\<close> writes the status
  once: a later call changes nothing.
\<close>

record Request =
  Method :: string
  Path :: string

record ResponseWriter =
  wroteHeader :: bool
  status :: nat
  body :: string

type_synonym HandlerFunc = "ResponseWriter \<Rightarrow> Request \<Rightarrow> ResponseWriter"

definition StatusOK :: nat where
  "StatusOK = 200"

definition StatusNotFound :: nat where
  "StatusNotFound = 404"

definition WriteHeader :: "nat \<Rightarrow> ResponseWriter \<Rightarrow> ResponseWriter" where
  "WriteHeader code w = (if wroteHeader w then w else w\<lparr>wroteHeader := True, status := code\<rparr>)"

definition Write :: "string \<Rightarrow> ResponseWriter \<Rightarrow> ResponseWriter" where
  "Write bs w =
     (if wroteHeader w then w\<lparr>body := body w @ bs\<rparr>
      else w\<lparr>wroteHeader := True, status := StatusOK, body := body w @ bs\<rparr>)"

text \<open>
  \<^verbatim>\<open>http.DefaultServeMux\<close> holds the handlers registered with \<^verbatim>\<open>http.HandleFunc\<close>,
  by pattern. Only patterns that name one path (no trailing slash, no host, no method)
  are modelled, which is all the program registers: such a pattern serves the requests
  whose path is the pattern. Registering a pattern twice panics. A path with no handler
  is answered by \<^verbatim>\<open>http.NotFound\<close>.
\<close>

type_synonym ServeMux = "string \<rightharpoonup> HandlerFunc"

definition http_HandleFunc :: "string \<Rightarrow> HandlerFunc \<Rightarrow> ServeMux \<Rightarrow> panic + ServeMux" where
  "http_HandleFunc pattern handler mux =
     (case mux pattern of
        Some h \<Rightarrow> Inl (MultipleRegistrations pattern)
      | None \<Rightarrow> Inr (mux(pattern \<mapsto> handler)))"

definition NotFound :: HandlerFunc where
  "NotFound w r = Write (Println ''404 page not found'') (WriteHeader StatusNotFound w)"

record Response =
  StatusCode :: nat
  Body :: string

text \<open>
  One request served by a running server whose handler is the mux: the handler gets a
  fresh \<^verbatim>\<open>ResponseWriter\<close>; a handler that returns without writing the header
  answers with status 200.
\<close>

definition ServeHTTP :: "ServeMux \<Rightarrow> Request \<Rightarrow> Response" where
  "ServeHTTP mux r =
     (let w0 = \<lparr>wroteHeader = False, status = 0, body = []\<rparr>;
          w = (case mux (Path r) of Some h \<Rightarrow> h w0 r | None \<Rightarrow> NotFound w0 r)
      in \<lparr>StatusCode = (if wroteHeader w then status w else StatusOK), Body = body w\<rparr>)"

text \<open>
  \<^verbatim>\<open>type HTTPServer struct { address string }\<close>

  \<^verbatim>\<open>func NewHTTPServer(address string) *HTTPServer {
    http.HandleFunc("/health", HealthHandler)
    return &HTTPServer{address: address} }\<close>

  \<^verbatim>\<open>func (s *HTTPServer) Start() error { return http.ListenAndServe(s.address, nil) }\<close>

  \<^verbatim>\<open>func HealthHandler(w http.ResponseWriter, r *http.Request) {
    w.WriteHeader(http.StatusOK) }\<close>

  \<^verbatim>\<open>NewHTTPServer\<close> changes the default mux, which the model passes and returns. A
  \<^verbatim>\<open>nil\<close> handler given to \<^verbatim>\<open>ListenAndServe\<close> stands for the default mux.
\<close>

record HTTPServer =
  http_address :: string

definition HealthHandler :: HandlerFunc where
  "HealthHandler w r = WriteHeader StatusOK w"

definition NewHTTPServer :: "string \<Rightarrow> ServeMux \<Rightarrow> panic + HTTPServer \<times> ServeMux" where
  "NewHTTPServer addr mux =
     (case http_HandleFunc ''/health'' HealthHandler mux of
        Inl p \<Rightarrow> Inl p
      | Inr mux' \<Rightarrow> Inr (\<lparr>http_address = addr\<rparr>, mux'))"

definition HTTPServer_Start :: "env \<Rightarrow> HTTPServer \<Rightarrow> error option outcome \<times> HTTPServer" where
  "HTTPServer_Start e s = (http_ListenAndServe e (http_address s), s)"

section \<open>The service host: \<^verbatim>\<open>main\<close> with a wait group\<close>

text \<open>
  \<^verbatim>\<open>func startGrpcServer(wg *sync.WaitGroup) {
    fmt.Println("Starting server...")
    server := internal.NewGrpcServer(":8080")
    err := server.Start()
    if err != nil { fmt.Println(err); wg.Done() } }\<close>

  \<^verbatim>\<open>func startHTTPServer(wg *sync.WaitGroup) {
    fmt.Println("Starting HTTP server...")
    httpServer := internal.NewHTTPServer(":8081")
    err := httpServer.Start()
    if err != nil { fmt.Println(err); wg.Done() } }\<close>

  \<^verbatim>\<open>func main() {
    wg := &sync.WaitGroup{}
    wg.Add(2)
    go startGrpcServer(wg)
    go startHTTPServer(wg)
    wg.Wait()
    os.Exit(1) }\<close>

  Three threads of control run interleaved: \<^verbatim>\<open>main\<close> and one goroutine per
  listener. A thread is known by the statement it is about to run. The state of the
  process is the counter of the wait group, the place of each thread, what has been
  written to standard output, and the exit status once the process has ended.
\<close>

datatype task = GrpcTask | HTTPTask

datatype task_pc =
    NotLaunched
  | AtPrintln
  | AtStart
  | AtPrintErr error
  | AtDone
  | Finished

datatype main_pc = AtAdd | AtGoGrpc | AtGoHTTP | AtWait | AtExit

record host =
  wg :: int
  main_pc :: main_pc
  grpc_pc :: task_pc
  http_pc :: task_pc
  stdout :: "string list"
  exit_code :: "int option"

definition init_host :: host where
  "init_host =
     \<lparr>wg = 0, main_pc = AtAdd, grpc_pc = NotLaunched, http_pc = NotLaunched,
      stdout = [], exit_code = None\<rparr>"

fun get_pc :: "task \<Rightarrow> host \<Rightarrow> task_pc" where
  "get_pc GrpcTask h = grpc_pc h"
| "get_pc HTTPTask h = http_pc h"

fun set_pc :: "task \<Rightarrow> task_pc \<Rightarrow> host \<Rightarrow> host" where
  "set_pc GrpcTask pc h = h\<lparr>grpc_pc := pc\<rparr>"
| "set_pc HTTPTask pc h = h\<lparr>http_pc := pc\<rparr>"

fun start_message :: "task \<Rightarrow> string" where
  "start_message GrpcTask = ''Starting server...''"
| "start_message HTTPTask = ''Starting HTTP server...''"

text \<open>
  The second and third statement of a task: build the server and call its
  \<^verbatim>\<open>Start\<close>. The default mux of the process is empty when \<^verbatim>\<open>startHTTPServer\<close>
  registers the health route, since nothing else registers a handler.
\<close>

fun task_Start :: "env \<Rightarrow> task \<Rightarrow> panic + error option outcome" where
  "task_Start e GrpcTask = Inr (fst (fst (Start e (NewGrpcServer e '':8080''))))"
| "task_Start e HTTPTask =
     (case NewHTTPServer '':8081'' Map.empty of
        Inl p \<Rightarrow> Inl p
      | Inr (srv, mux) \<Rightarrow> Inr (fst (HTTPServer_Start e srv)))"

text \<open>
  One step of a task. A task whose \<^verbatim>\<open>Start\<close> blocks has no step: it stays in the
  call. A \<^verbatim>\<open>nil\<close> error ends the task without \<^verbatim>\<open>wg.Done()\<close>. A panic that
  nothing recovers ends the process with status 2; \<^verbatim>\<open>wg.Done()\<close> panics when it
  would make the counter negative.
\<close>

definition task_step :: "env \<Rightarrow> task \<Rightarrow> host \<Rightarrow> host option" where
  "task_step e t h =
     (case get_pc t h of
        NotLaunched \<Rightarrow> None
      | AtPrintln \<Rightarrow>
          Some (set_pc t AtStart (h\<lparr>stdout := stdout h @ [Println (start_message t)]\<rparr>))
      | AtStart \<Rightarrow>
          (case task_Start e t of
             Inl p \<Rightarrow> Some (h\<lparr>exit_code := Some 2\<rparr>)
           | Inr Blocked \<Rightarrow> None
           | Inr (Returned None) \<Rightarrow> Some (set_pc t Finished h)
           | Inr (Returned (Some err)) \<Rightarrow> Some (set_pc t (AtPrintErr err) h))
      | AtPrintErr err \<Rightarrow>
          Some (set_pc t AtDone (h\<lparr>stdout := stdout h @ [Println err]\<rparr>))
      | AtDone \<Rightarrow>
          (if wg h - 1 < 0 then Some (h\<lparr>exit_code := Some 2\<rparr>)
           else Some (set_pc t Finished (h\<lparr>wg := wg h - 1\<rparr>)))
      | Finished \<Rightarrow> None)"

text \<open>
  One step of \<^verbatim>\<open>main\<close>. \<^verbatim>\<open>wg.Wait()\<close> has a step only when the counter is zero.
\<close>

definition main_step :: "host \<Rightarrow> host option" where
  "main_step h =
     (case main_pc h of
        AtAdd \<Rightarrow> Some (h\<lparr>wg := wg h + 2, main_pc := AtGoGrpc\<rparr>)
      | AtGoGrpc \<Rightarrow> Some (h\<lparr>grpc_pc := AtPrintln, main_pc := AtGoHTTP\<rparr>)
      | AtGoHTTP \<Rightarrow> Some (h\<lparr>http_pc := AtPrintln, main_pc := AtWait\<rparr>)
      | AtWait \<Rightarrow> (if wg h = 0 then Some (h\<lparr>main_pc := AtExit\<rparr>) else None)
      | AtExit \<Rightarrow> Some (h\<lparr>exit_code := Some 1\<rparr>))"

text \<open>
  The Go runtime ends the process with status 2 (\<^verbatim>\<open>all goroutines are asleep\<close>) when
  \<^verbatim>\<open>main\<close> waits on a counter that is not zero and both tasks have returned. A task
  that blocks in \<^verbatim>\<open>Start\<close> waits on the network and keeps the process alive.
\<close>

definition runtime_step :: "host \<Rightarrow> host option" where
  "runtime_step h =
     (if main_pc h = AtWait \<and> wg h \<noteq> 0 \<and> grpc_pc h = Finished \<and> http_pc h = Finished
      then Some (h\<lparr>exit_code := Some 2\<rparr>)
      else None)"

datatype thread = Main | Go task | Runtime

text \<open>A process that has exited takes no step.\<close>

definition step :: "env \<Rightarrow> thread \<Rightarrow> host \<Rightarrow> host option" where
  "step e th h =
     (if exit_code h \<noteq> None then None
      else case th of
             Main \<Rightarrow> main_step h
           | Go t \<Rightarrow> task_step e t h
           | Runtime \<Rightarrow> runtime_step h)"

text \<open>The states the process can be in, under any scheduling of its threads.\<close>

inductive reachable :: "env \<Rightarrow> host \<Rightarrow> bool" for e :: env where
  initial: "reachable e init_host"
| after: "reachable e h \<Longrightarrow> step e th h = Some h' \<Longrightarrow> reachable e h'"

text \<open>The run of one schedule: \<open>None\<close> when a scheduled thread has no step.\<close>

fun run :: "env \<Rightarrow> thread list \<Rightarrow> host \<Rightarrow> host option" where
  "run e [] h = Some h"
| "run e (th # ths) h = (case step e th h of None \<Rightarrow> None | Some h' \<Rightarrow> run e ths h')"

text \<open>
  The error a task's \<^verbatim>\<open>Start\<close> returns, if it returns one; and whether a task has
  called \<^verbatim>\<open>wg.Done()\<close>, which it has when it has returned and \<^verbatim>\<open>Start\<close> gave
  it an error.
\<close>

definition Start_error :: "env \<Rightarrow> task \<Rightarrow> error option" where
  "Start_error e t =
     (case task_Start e t of
        Inr (Returned (Some err)) \<Rightarrow> Some err
      | _ \<Rightarrow> None)"

definition signalled :: "env \<Rightarrow> host \<Rightarrow> task \<Rightarrow> int" where
  "signalled e h t = (if get_pc t h = Finished \<and> Start_error e t \<noteq> None then 1 else 0)"

definition signals :: "env \<Rightarrow> host \<Rightarrow> int" where
  "signals e h = signalled e h GrpcTask + signalled e h HTTPTask"

text \<open>
  The invariant of the host. Each task is where the outcome of its \<^verbatim>\<open>Start\<close>
  allows, and has printed its error before \<^verbatim>\<open>wg.Done()\<close>; the counter is 2 less
  the tasks that have signalled; a task has been launched exactly when \<^verbatim>\<open>main\<close>
  is past its \<^verbatim>\<open>go\<close> statement; \<^verbatim>\<open>main\<close> is past \<^verbatim>\<open>wg.Wait()\<close> only with the
  counter at zero; and the process has exited either through \<^verbatim>\<open>os.Exit(1)\<close> or
  through the runtime.
\<close>

fun pc_ok :: "panic + error option outcome \<Rightarrow> string list \<Rightarrow> task_pc \<Rightarrow> bool" where
  "pc_ok r out (AtPrintErr err) = (r = Inr (Returned (Some err)))"
| "pc_ok r out AtDone = (\<exists>err. r = Inr (Returned (Some err)) \<and> Println err \<in> set out)"
| "pc_ok r out Finished =
     (\<exists>x. r = Inr (Returned x) \<and> (\<forall>err. x = Some err \<longrightarrow> Println err \<in> set out))"
| "pc_ok r out pc = True"

fun launched :: "main_pc \<Rightarrow> task \<Rightarrow> bool" where
  "launched AtAdd t = False"
| "launched AtGoGrpc t = False"
| "launched AtGoHTTP t = (t = GrpcTask)"
| "launched AtWait t = True"
| "launched AtExit t = True"

definition host_inv :: "env \<Rightarrow> host \<Rightarrow> bool" where
  "host_inv e h \<longleftrightarrow>
     (\<forall>t. pc_ok (task_Start e t) (stdout h) (get_pc t h))
     \<and> wg h = (if main_pc h = AtAdd then 0 else 2) - signals e h
     \<and> (\<forall>t. launched (main_pc h) t \<longleftrightarrow> get_pc t h \<noteq> NotLaunched)
     \<and> (main_pc h = AtExit \<longrightarrow> wg h = 0)
     \<and> (exit_code h \<noteq> None \<longrightarrow>
          exit_code h = Some 1 \<and> main_pc h = AtExit
          \<or> exit_code h = Some 2 \<and> main_pc h = AtWait \<and> wg h \<noteq> 0
            \<and> grpc_pc h = Finished \<and> http_pc h = Finished)"

text \<open>
  How far the threads have got: every step of the process moves one thread forward,
  or ends the process.
\<close>

fun pc_rank :: "task_pc \<Rightarrow> nat" where
  "pc_rank NotLaunched = 0"
| "pc_rank AtPrintln = 1"
| "pc_rank AtStart = 2"
| "pc_rank (AtPrintErr err) = 3"
| "pc_rank AtDone = 4"
| "pc_rank Finished = 5"

fun main_rank :: "main_pc \<Rightarrow> nat" where
  "main_rank AtAdd = 0"
| "main_rank AtGoGrpc = 1"
| "main_rank AtGoHTTP = 2"
| "main_rank AtWait = 3"
| "main_rank AtExit = 4"

definition rank :: "host \<Rightarrow> nat" where
  "rank h = main_rank (main_pc h) + pc_rank (grpc_pc h) + pc_rank (http_pc h)
     + (if exit_code h = None then 0 else 1)"

section \<open>Environments used as concrete inputs\<close>

definition addr_in_use :: error where
  "addr_in_use = ''listen tcp :8080: bind: address already in use''"

definition serve_broken :: error where
  "serve_broken = ''accept tcp [::]:8080: use of closed network connection''"

definition env_bind_fails :: env where
  "env_bind_fails =
     \<lparr>grpc_NewServer = 0,
      net_Listen = (\<lambda>network addr. Inl addr_in_use),
      grpc_Serve = (\<lambda>g lis. Blocked),
      http_ListenAndServe = (\<lambda>addr. Blocked)\<rparr>"

definition env_serve_fails :: env where
  "env_serve_fails =
     \<lparr>grpc_NewServer = 0,
      net_Listen = (\<lambda>network addr. Inr (Listener network addr)),
      grpc_Serve = (\<lambda>g lis. Returned (Some serve_broken)),
      http_ListenAndServe = (\<lambda>addr. Blocked)\<rparr>"

definition http_denied :: error where
  "http_denied = ''listen tcp :8081: bind: permission denied''"

definition env_http_fails :: env where
  "env_http_fails =
     \<lparr>grpc_NewServer = 0,
      net_Listen = (\<lambda>network addr. Inr (Listener network addr)),
      grpc_Serve = (\<lambda>g lis. Blocked),
      http_ListenAndServe = (\<lambda>addr. Returned (Some http_denied))\<rparr>"

definition env_both_fail :: env where
  "env_both_fail =
     \<lparr>grpc_NewServer = 0,
      net_Listen = (\<lambda>network addr. Inl addr_in_use),
      grpc_Serve = (\<lambda>g lis. Blocked),
      http_ListenAndServe = (\<lambda>addr. Returned (Some http_denied))\<rparr>"

section \<open>The handler\<close>

lemma GetFrame_receiver: "snd (GetFrame ctx req s) = s"
  by (simp add: GetFrame_def split: option.split)

lemma GetFrame_any_receiver: "fst (GetFrame c1 req s1) = fst (GetFrame c2 req s2)"
  by (simp add: GetFrame_def split: option.split)

text \<open>
  C1. For every request whose id is \<open>x\<close>, zero and negative values included,
  \<^verbatim>\<open>GetFrame\<close> returns a frame whose id is \<open>x\<close> together with the \<^verbatim>\<open>nil\<close> error;
  nothing is asked of \<open>x\<close>, of the context or of the server.
\<close>

theorem GetFrame_echo:
  "fst (GetFrame ctx (Some \<lparr>GetFrameRequest_Id = x\<rparr>) s) = Inr (\<lparr>Frame_Id = x\<rparr>, None)"
  by (simp add: GetFrame_def)

text \<open>
  C7. Invoking \<^verbatim>\<open>GetFrame\<close> any number of times with the same request gives the
  same result every time: each invocation returns what a single invocation on any
  server in any context returns, and the server is left as it was.
\<close>

theorem GetFrame_idempotent:
  "invocations ctxs req s = (replicate (length ctxs) (fst (GetFrame c0 req s0)), s)"
proof (induction ctxs arbitrary: s)
  case Nil
  show ?case by simp
next
  case (Cons ctx ctxs)
  have one: "GetFrame ctx req s = (fst (GetFrame c0 req s0), s)"
    using GetFrame_any_receiver [of ctx req s c0 s0] GetFrame_receiver [of ctx req s]
    by (simp add: prod_eq_iff)
  show ?case by (simp add: one Cons.IH)
qed

text \<open>
  C10. The result of \<^verbatim>\<open>GetFrame\<close> does not depend on its context: two invocations
  that differ only in the context return the same response and the same error, and
  for a request \<open>r\<close> the response is the frame made of \<open>r\<close>'s id with the \<^verbatim>\<open>nil\<close> error.
\<close>

theorem GetFrame_context_independent:
  "GetFrame c1 req s = GetFrame c2 req s
   \<and> fst (GetFrame c1 (Some r) s) = Inr (\<lparr>Frame_Id = GetFrameRequest_Id r\<rparr>, None)"
  by (simp add: GetFrame_def split: option.split)

section \<open>Starting the RPC listener\<close>

text \<open>
  C3. If binding the configured TCP address fails, \<^verbatim>\<open>Start\<close> returns that error
  and makes no call of \<^verbatim>\<open>Serve\<close>: the calls it made are the registration and the
  failed \<^verbatim>\<open>Listen\<close>.
\<close>

theorem Start_bind_failure:
  assumes "net_Listen e ''tcp'' (address s) = Inl err"
  shows "fst (fst (Start e s)) = Returned (Some err)
    \<and> snd (fst (Start e s)) = [RegisterFrameServiceServer (server s), Listen ''tcp'' (address s)]
    \<and> filter is_Serve (snd (fst (Start e s))) = []"
  using assms by (simp add: Start_def)

theorem Start_bind_failure_witness:
  "net_Listen env_bind_fails ''tcp'' (address (NewGrpcServer env_bind_fails '':8080'')) = Inl addr_in_use
   \<and> fst (fst (Start env_bind_fails (NewGrpcServer env_bind_fails '':8080''))) = Returned (Some addr_in_use)
   \<and> filter is_Serve (snd (fst (Start env_bind_fails (NewGrpcServer env_bind_fails '':8080'')))) = []"
proof -
  have h: "net_Listen env_bind_fails ''tcp'' (address (NewGrpcServer env_bind_fails '':8080'')) = Inl addr_in_use"
    by (simp add: env_bind_fails_def)
  from Start_bind_failure [OF h] h show ?thesis by simp
qed

text \<open>
  C4. On a successful bind \<^verbatim>\<open>Start\<close> calls \<^verbatim>\<open>Serve\<close> on the listener and its
  outcome is that of \<^verbatim>\<open>Serve\<close>: it blocks while the serve loop runs and returns
  what the loop returns. So \<^verbatim>\<open>Start\<close> returns an error that is not \<^verbatim>\<open>nil\<close>
  exactly when the bind fails or the serve loop returns such an error.
\<close>

theorem Start_serve_error:
  "(net_Listen e ''tcp'' (address s) = Inr lis \<longrightarrow>
      fst (fst (Start e s)) = grpc_Serve e (server s) lis
      \<and> last (snd (fst (Start e s))) = Serve (server s) lis)
   \<and> ((\<exists>err. fst (fst (Start e s)) = Returned (Some err)) \<longleftrightarrow>
        (\<exists>err. net_Listen e ''tcp'' (address s) = Inl err)
        \<or> (\<exists>lis err. net_Listen e ''tcp'' (address s) = Inr lis
              \<and> grpc_Serve e (server s) lis = Returned (Some err)))"
  by (cases "net_Listen e ''tcp'' (address s)") (simp_all add: Start_def)

theorem Start_serve_error_witness:
  "net_Listen env_serve_fails ''tcp'' (address (NewGrpcServer env_serve_fails '':8080''))
     = Inr (Listener ''tcp'' '':8080'')
   \<and> fst (fst (Start env_serve_fails (NewGrpcServer env_serve_fails '':8080'')))
     = Returned (Some serve_broken)
   \<and> last (snd (fst (Start env_serve_fails (NewGrpcServer env_serve_fails '':8080''))))
     = Serve 0 (Listener ''tcp'' '':8080'')"
proof -
  have h: "net_Listen env_serve_fails ''tcp'' (address (NewGrpcServer env_serve_fails '':8080''))
     = Inr (Listener ''tcp'' '':8080'')"
    by (simp add: env_serve_fails_def NewGrpcServer_def)
  have g: "grpc_Serve env_serve_fails (server (NewGrpcServer env_serve_fails '':8080''))
     (Listener ''tcp'' '':8080'') = Returned (Some serve_broken)"
    by (simp add: env_serve_fails_def)
  have s: "server (NewGrpcServer env_serve_fails '':8080'') = 0"
    by (simp add: env_serve_fails_def NewGrpcServer_def)
  from Start_serve_error [of env_serve_fails "NewGrpcServer env_serve_fails '':8080''"
      "Listener ''tcp'' '':8080''"] h g s
  show ?thesis by simp
qed

text \<open>
  C8. The configuration of a listener does not change after construction:
  \<^verbatim>\<open>NewGrpcServer\<close> sets the address it is given, \<^verbatim>\<open>Start\<close> leaves every field of
  the receiver as it was, and so does \<^verbatim>\<open>GetFrame\<close>.
\<close>

theorem GrpcServer_immutable:
  "address (NewGrpcServer e addr) = addr
   \<and> snd (Start e s) = s
   \<and> snd (GetFrame ctx req s) = s
   \<and> address (snd (Start e (NewGrpcServer e addr))) = addr"
  by (simp add: NewGrpcServer_def Start_def GetFrame_def split: sum.split option.split)

section \<open>The entry point\<close>

text \<open>
  C5. The entry point starts the RPC listener on \<^verbatim>\<open>:8080\<close> (its library calls are
  those of \<^verbatim>\<open>Start\<close>), and if \<^verbatim>\<open>Start\<close> returns an error it prints the error
  after the start-up line and the process exits with status 1.
\<close>

theorem main_exits_1_on_error:
  "fst (snd (main e)) = snd (fst (Start e (NewGrpcServer e '':8080'')))
   \<and> (fst (fst (Start e (NewGrpcServer e '':8080''))) = Returned (Some err) \<longrightarrow>
        fst (main e) = [Println ''Starting server...'', ''Error starting server: '' @ Println err]
        \<and> snd (snd (main e)) = Returned 1)"
  by (cases "Start e (NewGrpcServer e '':8080'')")
    (auto simp: main_def Println_def split: outcome.split option.split)

theorem main_exits_1_on_error_witness:
  "fst (fst (Start env_bind_fails (NewGrpcServer env_bind_fails '':8080''))) = Returned (Some addr_in_use)
   \<and> fst (main env_bind_fails) = [Println ''Starting server...'', ''Error starting server: '' @ Println addr_in_use]
   \<and> snd (snd (main env_bind_fails)) = Returned 1"
proof -
  have h: "fst (fst (Start env_bind_fails (NewGrpcServer env_bind_fails '':8080''))) = Returned (Some addr_in_use)"
    by (simp add: Start_def env_bind_fails_def)
  from main_exits_1_on_error [of env_bind_fails addr_in_use] h show ?thesis by simp
qed

section \<open>The health route\<close>

text \<open>
  C6. Once \<^verbatim>\<open>NewHTTPServer\<close> has registered the route, a request to \<^verbatim>\<open>/health\<close>
  that the running listener serves, \<^verbatim>\<open>GET\<close> or any other method, is answered with
  status 200 and an empty body.
\<close>

theorem health_route_200_empty:
  assumes "NewHTTPServer addr mux0 = Inr (srv, mux)"
  shows "ServeHTTP mux \<lparr>Method = m, Path = ''/health''\<rparr> = \<lparr>StatusCode = 200, Body = []\<rparr>"
proof -
  from assms have "mux ''/health'' = Some HealthHandler"
    by (auto simp: NewHTTPServer_def http_HandleFunc_def split: option.splits)
  then show ?thesis
    by (simp add: ServeHTTP_def HealthHandler_def WriteHeader_def StatusOK_def)
qed

theorem health_route_200_empty_witness:
  "ServeHTTP (Map.empty(''/health'' \<mapsto> HealthHandler)) \<lparr>Method = ''GET'', Path = ''/health''\<rparr>
     = \<lparr>StatusCode = 200, Body = []\<rparr>"
proof -
  have h: "NewHTTPServer '':8081'' Map.empty
     = Inr (\<lparr>http_address = '':8081''\<rparr>, Map.empty(''/health'' \<mapsto> HealthHandler))"
    by (simp add: NewHTTPServer_def http_HandleFunc_def)
  from health_route_200_empty [OF h] show ?thesis .
qed

section \<open>The invariant of the service host\<close>

lemma task_Start_no_panic: "task_Start e t \<noteq> Inl p"
  by (cases t) (simp_all add: NewHTTPServer_def http_HandleFunc_def)

lemma Start_error_Some: "Start_error e t = Some err \<longleftrightarrow> task_Start e t = Inr (Returned (Some err))"
  by (auto simp: Start_error_def split: sum.splits outcome.splits option.splits)

lemma get_pc_set_pc: "get_pc t' (set_pc t pc h) = (if t' = t then pc else get_pc t' h)"
  by (cases t; cases t') simp_all

lemma set_pc_fields [simp]:
  "wg (set_pc t pc h) = wg h"
  "main_pc (set_pc t pc h) = main_pc h"
  "stdout (set_pc t pc h) = stdout h"
  "exit_code (set_pc t pc h) = exit_code h"
  by (cases t; simp)+

lemma get_pc_fields [simp]:
  "get_pc t (h\<lparr>wg := w\<rparr>) = get_pc t h"
  "get_pc t (h\<lparr>main_pc := m\<rparr>) = get_pc t h"
  "get_pc t (h\<lparr>stdout := out\<rparr>) = get_pc t h"
  "get_pc t (h\<lparr>exit_code := c\<rparr>) = get_pc t h"
  by (cases t; simp)+

lemma pc_ok_append: "pc_ok r out pc \<Longrightarrow> pc_ok r (out @ extra) pc"
  by (cases pc) auto

lemma signals_set_pc:
  "signals e (set_pc t pc h) =
     signals e h - signalled e h t + (if pc = Finished \<and> Start_error e t \<noteq> None then 1 else 0)"
  by (cases t) (simp_all add: signals_def signalled_def)

lemma signals_fields [simp]:
  "signals e (h\<lparr>wg := w\<rparr>) = signals e h"
  "signals e (h\<lparr>main_pc := m\<rparr>) = signals e h"
  "signals e (h\<lparr>stdout := out\<rparr>) = signals e h"
  "signals e (h\<lparr>exit_code := c\<rparr>) = signals e h"
  by (simp_all add: signals_def signalled_def)

lemma signals_bound: "get_pc t h \<noteq> Finished \<Longrightarrow> signals e h \<le> 1"
  by (cases t) (simp_all add: signals_def signalled_def)

lemma signalled_not_Finished: "get_pc t h \<noteq> Finished \<Longrightarrow> signalled e h t = 0"
  by (simp add: signalled_def)

lemma signals_2:
  "signals e h = 2 \<longleftrightarrow>
     (\<forall>t. get_pc t h = Finished \<and> Start_error e t \<noteq> None)"
proof -
  have "(\<forall>t. P t) \<longleftrightarrow> P GrpcTask \<and> P HTTPTask" for P
    by (metis task.exhaust)
  then show ?thesis
    by (simp add: signals_def signalled_def)
qed

lemma host_inv_init: "host_inv e init_host"
proof -
  have "get_pc t init_host = NotLaunched" for t
    by (cases t) (simp_all add: init_host_def)
  then show ?thesis
    by (simp add: host_inv_def signals_def signalled_def) (simp add: init_host_def)
qed

lemma task_step_cases:
  assumes "task_step e t h = Some h'"
  obtains
    (Println) "get_pc t h = AtPrintln"
      "h' = set_pc t AtStart (h\<lparr>stdout := stdout h @ [Println (start_message t)]\<rparr>)"
  | (StartNil) "get_pc t h = AtStart" "task_Start e t = Inr (Returned None)"
      "h' = set_pc t Finished h"
  | (StartErr) err where "get_pc t h = AtStart" "task_Start e t = Inr (Returned (Some err))"
      "h' = set_pc t (AtPrintErr err) h"
  | (PrintErr) err where "get_pc t h = AtPrintErr err"
      "h' = set_pc t AtDone (h\<lparr>stdout := stdout h @ [Println err]\<rparr>)"
  | (DonePanic) "get_pc t h = AtDone" "wg h - 1 < 0" "h' = h\<lparr>exit_code := Some 2\<rparr>"
  | (Done) "get_pc t h = AtDone" "\<not> wg h - 1 < 0"
      "h' = set_pc t Finished (h\<lparr>wg := wg h - 1\<rparr>)"
proof (cases "get_pc t h")
  case NotLaunched
  with assms show ?thesis by (simp add: task_step_def)
next
  case AtPrintln
  with assms Println show ?thesis by (simp add: task_step_def)
next
  case AtStart
  with assms task_Start_no_panic [of e t] StartNil StartErr show ?thesis
    by (auto simp: task_step_def split: sum.splits outcome.splits option.splits)
next
  case (AtPrintErr err)
  with assms PrintErr show ?thesis by (simp add: task_step_def)
next
  case AtDone
  with assms DonePanic Done show ?thesis by (auto simp: task_step_def split: if_splits)
next
  case Finished
  with assms show ?thesis by (simp add: task_step_def)
qed

lemma host_inv_task_step:
  assumes inv: "host_inv e h" and st: "task_step e t h = Some h'" and alive: "exit_code h = None"
  shows "host_inv e h'"
proof -
  from inv have ok: "pc_ok (task_Start e u) (stdout h) (get_pc u h)" for u
    by (simp add: host_inv_def)
  from inv have cnt: "wg h = (if main_pc h = AtAdd then 0 else 2) - signals e h"
    by (simp add: host_inv_def)
  from inv have lau: "launched (main_pc h) u \<longleftrightarrow> get_pc u h \<noteq> NotLaunched" for u
    by (simp add: host_inv_def)
  from inv have ex: "main_pc h = AtExit \<Longrightarrow> wg h = 0"
    by (simp add: host_inv_def)
  have started: "main_pc h \<noteq> AtAdd" if "get_pc t h \<noteq> NotLaunched"
    using that lau [of t] by (cases "main_pc h") auto
  from st show ?thesis
  proof (cases rule: task_step_cases)
    case Println
    have "pc_ok (task_Start e u) (stdout h') (get_pc u h')" for u
      using ok [of u] Println by (auto simp: get_pc_set_pc intro: pc_ok_append)
    moreover have "signals e h' = signals e h"
      using Println by (simp add: signals_set_pc signalled_not_Finished)
    moreover have "launched (main_pc h') u \<longleftrightarrow> get_pc u h' \<noteq> NotLaunched" for u
      using lau [of u] Println by (auto simp: get_pc_set_pc)
    ultimately show ?thesis
      using cnt ex alive Println by (simp add: host_inv_def)
  next
    case StartNil
    have "pc_ok (task_Start e u) (stdout h') (get_pc u h')" for u
      using ok [of u] StartNil by (auto simp: get_pc_set_pc)
    moreover have "signals e h' = signals e h"
      using StartNil by (simp add: signals_set_pc signalled_not_Finished Start_error_def)
    moreover have "launched (main_pc h') u \<longleftrightarrow> get_pc u h' \<noteq> NotLaunched" for u
      using lau [of u] StartNil by (auto simp: get_pc_set_pc)
    ultimately show ?thesis
      using cnt ex alive StartNil by (simp add: host_inv_def)
  next
    case (StartErr err)
    have "pc_ok (task_Start e u) (stdout h') (get_pc u h')" for u
      using ok [of u] StartErr by (auto simp: get_pc_set_pc)
    moreover have "signals e h' = signals e h"
      using StartErr by (simp add: signals_set_pc signalled_not_Finished)
    moreover have "launched (main_pc h') u \<longleftrightarrow> get_pc u h' \<noteq> NotLaunched" for u
      using lau [of u] StartErr by (auto simp: get_pc_set_pc)
    ultimately show ?thesis
      using cnt ex alive StartErr by (simp add: host_inv_def)
  next
    case (PrintErr err)
    have "pc_ok (task_Start e u) (stdout h') (get_pc u h')" for u
      using ok [of u] ok [of t] PrintErr by (auto simp: get_pc_set_pc intro: pc_ok_append)
    moreover have "signals e h' = signals e h"
      using PrintErr by (simp add: signals_set_pc signalled_not_Finished)
    moreover have "launched (main_pc h') u \<longleftrightarrow> get_pc u h' \<noteq> NotLaunched" for u
      using lau [of u] PrintErr by (auto simp: get_pc_set_pc)
    ultimately show ?thesis
      using cnt ex alive PrintErr by (simp add: host_inv_def)
  next
    case DonePanic
    have "signals e h \<le> 1"
      using DonePanic by (simp add: signals_bound [of t])
    moreover have "main_pc h \<noteq> AtAdd"
      using DonePanic started by simp
    ultimately have "1 \<le> wg h"
      using cnt by simp
    with DonePanic show ?thesis by simp
  next
    case Done
    from ok [of t] Done obtain err
      where err: "task_Start e t = Inr (Returned (Some err))" "Println err \<in> set (stdout h)"
      by auto
    have "pc_ok (task_Start e u) (stdout h') (get_pc u h')" for u
      using ok [of u] err Done by (auto simp: get_pc_set_pc)
    moreover have "signals e h' = signals e h + 1"
      using Done err by (simp add: signals_set_pc signalled_not_Finished Start_error_def)
    moreover have "launched (main_pc h') u \<longleftrightarrow> get_pc u h' \<noteq> NotLaunched" for u
      using lau [of u] Done by (auto simp: get_pc_set_pc)
    moreover have "main_pc h \<noteq> AtExit"
      using ex Done by auto
    ultimately show ?thesis
      using cnt alive Done by (simp add: host_inv_def)
  qed
qed

lemma host_inv_main_step:
  assumes inv: "host_inv e h" and st: "main_step h = Some h'" and alive: "exit_code h = None"
  shows "host_inv e h'"
proof -
  from inv have ok: "pc_ok (task_Start e u) (stdout h) (get_pc u h)" for u
    by (simp add: host_inv_def)
  from inv have cnt: "wg h = (if main_pc h = AtAdd then 0 else 2) - signals e h"
    by (simp add: host_inv_def)
  from inv have lau: "launched (main_pc h) u \<longleftrightarrow> get_pc u h \<noteq> NotLaunched" for u
    by (simp add: host_inv_def)
  from inv have ex: "main_pc h = AtExit \<Longrightarrow> wg h = 0"
    by (simp add: host_inv_def)
  show ?thesis
  proof (cases "main_pc h")
    case AtAdd
    with st have h': "h' = h\<lparr>wg := wg h + 2, main_pc := AtGoGrpc\<rparr>"
      by (simp add: main_step_def)
    have "get_pc u h' = NotLaunched" for u
      using lau [of u] AtAdd h' by simp
    then show ?thesis
      using cnt AtAdd alive h' by (simp add: host_inv_def)
  next
    case AtGoGrpc
    with st have h': "h' = h\<lparr>grpc_pc := AtPrintln, main_pc := AtGoHTTP\<rparr>"
      by (simp add: main_step_def)
    have pcs: "get_pc u h' = (if u = GrpcTask then AtPrintln else NotLaunched)" for u
      using lau [of u] AtGoGrpc h' by (cases u) simp_all
    have "signals e h' = signals e h"
      using lau [of GrpcTask] AtGoGrpc h' by (simp add: signals_def signalled_def)
    then show ?thesis
      using cnt AtGoGrpc alive h' pcs by (simp add: host_inv_def)
  next
    case AtGoHTTP
    with st have h': "h' = h\<lparr>http_pc := AtPrintln, main_pc := AtWait\<rparr>"
      by (simp add: main_step_def)
    have "pc_ok (task_Start e u) (stdout h') (get_pc u h')" for u
      using ok [of u] h' by (cases u) simp_all
    moreover have "signals e h' = signals e h"
      using lau [of HTTPTask] AtGoHTTP h' by (simp add: signals_def signalled_def)
    moreover have "get_pc u h' \<noteq> NotLaunched" for u
      using lau [of u] AtGoHTTP h' by (cases u) simp_all
    ultimately show ?thesis
      using cnt AtGoHTTP alive h' by (simp add: host_inv_def)
  next
    case AtWait
    with st have h': "h' = h\<lparr>main_pc := AtExit\<rparr>" and zero: "wg h = 0"
      by (simp_all add: main_step_def split: if_splits)
    have "pc_ok (task_Start e u) (stdout h') (get_pc u h')" for u
      using ok [of u] h' by simp
    moreover have "get_pc u h' \<noteq> NotLaunched" for u
      using lau [of u] AtWait h' by simp
    ultimately show ?thesis
      using cnt AtWait alive h' zero by (simp add: host_inv_def)
  next
    case AtExit
    with st have h': "h' = h\<lparr>exit_code := Some 1\<rparr>"
      by (simp add: main_step_def)
    have "pc_ok (task_Start e u) (stdout h') (get_pc u h')" for u
      using ok [of u] h' by simp
    moreover have "get_pc u h' \<noteq> NotLaunched" for u
      using lau [of u] AtExit h' by simp
    ultimately show ?thesis
      using cnt ex AtExit h' by (simp add: host_inv_def)
  qed
qed

lemma host_inv_runtime_step:
  assumes inv: "host_inv e h" and st: "runtime_step h = Some h'"
  shows "host_inv e h'"
proof -
  from st have h': "h' = h\<lparr>exit_code := Some 2\<rparr>"
    and dead: "main_pc h = AtWait" "wg h \<noteq> 0" "grpc_pc h = Finished" "http_pc h = Finished"
    by (simp_all add: runtime_step_def split: if_splits)
  from inv h' dead show ?thesis
    by (simp add: host_inv_def)
qed

lemma host_inv_step:
  assumes "host_inv e h" and "step e th h = Some h'"
  shows "host_inv e h'"
  using assms host_inv_main_step [of e h h'] host_inv_task_step [of e h _ h']
    host_inv_runtime_step [of e h h']
  by (cases th) (auto simp: step_def split: if_splits)

lemma reachable_host_inv: "reachable e h \<Longrightarrow> host_inv e h"
  by (induction rule: reachable.induct) (auto intro: host_inv_init host_inv_step)

lemma reachable_run: "reachable e h \<Longrightarrow> run e ths h = Some h' \<Longrightarrow> reachable e h'"
proof (induction ths arbitrary: h)
  case Nil
  then show ?case by simp
next
  case (Cons th ths)
  then show ?case
    by (auto split: option.splits intro: reachable.after)
qed

text \<open>What the invariant says of a host that got past \<^verbatim>\<open>wg.Wait()\<close>.\<close>

lemma host_inv_past_Wait:
  assumes inv: "host_inv e h" and past: "main_pc h = AtExit"
  shows "\<exists>err. Start_error e t = Some err \<and> Println err \<in> set (stdout h)"
proof -
  from inv past have "signals e h = 2"
    by (simp add: host_inv_def)
  then have fin: "get_pc t h = Finished" and err: "Start_error e t \<noteq> None"
    by (simp_all add: signals_2)
  from inv have "pc_ok (task_Start e t) (stdout h) (get_pc t h)"
    by (simp add: host_inv_def)
  with fin err show ?thesis
    by (auto simp: Start_error_Some)
qed

lemma host_inv_exit_1:
  assumes inv: "host_inv e h" and ex: "exit_code h = Some 1"
  shows "main_pc h = AtExit"
  using assms by (auto simp: host_inv_def)

text \<open>A host with a task that blocks in \<^verbatim>\<open>Start\<close> never exits.\<close>

lemma host_inv_blocked:
  assumes inv: "host_inv e h" and blocked: "task_Start e t = Inr Blocked"
  shows "exit_code h = None \<and> main_pc h \<noteq> AtExit"
proof -
  from inv have ok: "pc_ok (task_Start e t) (stdout h) (get_pc t h)"
    by (simp add: host_inv_def)
  with blocked have nf: "get_pc t h \<noteq> Finished"
    by auto
  have "Start_error e t = None"
    using blocked by (simp add: Start_error_def)
  then have "main_pc h \<noteq> AtExit"
    using host_inv_past_Wait [OF inv, of t] by auto
  moreover have "exit_code h \<noteq> Some 2"
    using inv nf by (cases t) (auto simp: host_inv_def)
  ultimately show ?thesis
    using inv by (auto simp: host_inv_def)
qed



text \<open>
  Every step raises the rank of the state, which is at most 15: a run has at most 15
  steps. When both listeners fail, a process that has not exited has a thread that
  can step, and an exit has status 1.
\<close>

lemma pc_rank_le: "pc_rank pc \<le> 5"
  by (cases pc) simp_all

lemma main_rank_le: "main_rank m \<le> 4"
  by (cases m) simp_all

lemma rank_le: "rank h \<le> 15"
  using pc_rank_le [of "grpc_pc h"] pc_rank_le [of "http_pc h"] main_rank_le [of "main_pc h"]
  by (simp add: rank_def)

lemma rank_set_pc:
  "rank (set_pc t pc h) + pc_rank (get_pc t h) = rank h + pc_rank pc"
  by (cases t) (simp_all add: rank_def)

lemma rank_fields [simp]:
  "rank (h\<lparr>wg := w\<rparr>) = rank h"
  "rank (h\<lparr>stdout := out\<rparr>) = rank h"
  by (simp_all add: rank_def)

lemma rank_task_step:
  assumes st: "task_step e t h = Some h'" and alive: "exit_code h = None"
  shows "rank h < rank h'"
  using st
proof (cases rule: task_step_cases)
  case Println
  with rank_set_pc [of t AtStart "h\<lparr>stdout := stdout h @ [Println (start_message t)]\<rparr>"]
  show ?thesis by simp
next
  case StartNil
  with rank_set_pc [of t Finished h] show ?thesis by simp
next
  case (StartErr err)
  with rank_set_pc [of t "AtPrintErr err" h] show ?thesis by simp
next
  case (PrintErr err)
  with rank_set_pc [of t AtDone "h\<lparr>stdout := stdout h @ [Println err]\<rparr>"]
  show ?thesis by simp
next
  case DonePanic
  with alive show ?thesis by (simp add: rank_def)
next
  case Done
  with rank_set_pc [of t Finished "h\<lparr>wg := wg h - 1\<rparr>"] show ?thesis by simp
qed

lemma rank_main_step:
  assumes inv: "host_inv e h" and st: "main_step h = Some h'" and alive: "exit_code h = None"
  shows "rank h < rank h'"
proof -
  from inv have lau: "launched (main_pc h) u \<longleftrightarrow> get_pc u h \<noteq> NotLaunched" for u
    by (simp add: host_inv_def)
  show ?thesis
  proof (cases "main_pc h")
    case AtAdd
    with st show ?thesis by (auto simp: main_step_def rank_def)
  next
    case AtGoGrpc
    with st lau [of GrpcTask] show ?thesis by (auto simp: main_step_def rank_def)
  next
    case AtGoHTTP
    with st lau [of HTTPTask] show ?thesis by (auto simp: main_step_def rank_def)
  next
    case AtWait
    with st show ?thesis by (auto simp: main_step_def rank_def split: if_splits)
  next
    case AtExit
    with st alive show ?thesis by (auto simp: main_step_def rank_def)
  qed
qed

lemma rank_runtime_step:
  assumes "runtime_step h = Some h'" and "exit_code h = None"
  shows "rank h < rank h'"
  using assms by (auto simp: runtime_step_def rank_def split: if_splits)

lemma rank_step:
  assumes "host_inv e h" and "step e th h = Some h'"
  shows "rank h < rank h'"
  using assms rank_main_step [of e h h'] rank_task_step [of e _ h h'] rank_runtime_step [of h h']
  by (cases th) (auto simp: step_def split: if_splits)

lemma rank_run:
  "reachable e h \<Longrightarrow> run e ths h = Some h' \<Longrightarrow> rank h + length ths \<le> rank h'"
proof (induction ths arbitrary: h)
  case Nil
  then show ?case by simp
next
  case (Cons th ths)
  from Cons.prems obtain k where k: "step e th h = Some k" and r: "run e ths k = Some h'"
    by (auto split: option.splits)
  have "reachable e k"
    using Cons.prems(1) k by (rule reachable.after)
  from Cons.IH [OF this r] rank_step [OF reachable_host_inv [OF Cons.prems(1)] k]
  show ?case by simp
qed

lemma run_length: "run e ths init_host = Some h \<Longrightarrow> length ths \<le> 15"
  using rank_run [OF reachable.initial, of e ths h] rank_le [of h] by simp

lemma host_progress:
  assumes inv: "host_inv e h" and alive: "exit_code h = None"
    and fail: "\<And>t. Start_error e t \<noteq> None"
  shows "\<exists>th h'. step e th h = Some h'"
proof (cases "main_step h")
  case (Some h')
  with alive have "step e Main h = Some h'"
    by (simp add: step_def)
  then show ?thesis by blast
next
  case None
  then have wait: "main_pc h = AtWait" and pos: "wg h \<noteq> 0"
    by (cases "main_pc h"; simp add: main_step_def split: if_splits)+
  from inv wait pos have "signals e h \<noteq> 2"
    by (simp add: host_inv_def)
  then obtain t where "\<not> (get_pc t h = Finished \<and> Start_error e t \<noteq> None)"
    by (auto simp: signals_2)
  with fail [of t] have nf: "get_pc t h \<noteq> Finished"
    by simp
  from inv wait have nl: "get_pc t h \<noteq> NotLaunched"
    by (simp add: host_inv_def)
  from fail [of t] obtain err where err: "task_Start e t = Inr (Returned (Some err))"
    by (auto simp: Start_error_Some)
  have "\<exists>h'. task_step e t h = Some h'"
    using nf nl err by (cases "get_pc t h") (simp_all add: task_step_def)
  then obtain h' where "step e (Go t) h = Some h'"
    using alive by (auto simp: step_def)
  then show ?thesis by blast
qed

lemma host_inv_exit_code:
  assumes inv: "host_inv e h" and ex: "exit_code h = Some c"
    and fail: "\<And>t. Start_error e t \<noteq> None"
  shows "c = 1"
proof (rule ccontr)
  assume "c \<noteq> 1"
  with inv ex have two: "wg h \<noteq> 0" "grpc_pc h = Finished" "http_pc h = Finished"
    and wait: "main_pc h = AtWait"
    by (auto simp: host_inv_def)
  have "get_pc t h = Finished" for t
    using two by (cases t) simp_all
  with fail have "signals e h = 2"
    by (simp add: signals_2)
  with inv wait two show False
    by (simp add: host_inv_def)
qed

text \<open>
  What a task whose \<^verbatim>\<open>Start\<close> returned an error does next, in a state the process
  can reach: the counter is at least 1 when a task is about to call \<^verbatim>\<open>wg.Done()\<close>,
  so the call lowers the counter and does not panic.
\<close>

lemma host_inv_AtDone:
  assumes inv: "host_inv e h" and pc: "get_pc t h = AtDone"
  shows "1 \<le> wg h"
proof -
  have "signals e h \<le> 1"
    using pc by (simp add: signals_bound [of t])
  moreover have "launched (main_pc h) t"
    using inv pc by (simp add: host_inv_def)
  then have "main_pc h \<noteq> AtAdd"
    by (cases "main_pc h") simp_all
  moreover have "wg h = (if main_pc h = AtAdd then 0 else 2) - signals e h"
    using inv by (simp add: host_inv_def)
  ultimately show ?thesis by simp
qed

lemma host_inv_AtPrintErr:
  assumes inv: "host_inv e h" and pc: "get_pc t h = AtPrintErr err"
  shows "Start_error e t = Some err"
proof -
  from inv have "pc_ok (task_Start e t) (stdout h) (get_pc t h)"
    by (simp add: host_inv_def)
  with pc show ?thesis
    by (simp add: Start_error_Some)
qed

lemma step_AtStart:
  assumes "exit_code h = None" and "get_pc t h = AtStart" and "Start_error e t = Some err"
  shows "step e (Go t) h = Some (set_pc t (AtPrintErr err) h)"
  using assms by (simp add: step_def task_step_def Start_error_Some del: task_Start.simps)

lemma step_AtPrintErr:
  assumes "exit_code h = None" and "get_pc t h = AtPrintErr err"
  shows "step e (Go t) h = Some (set_pc t AtDone (h\<lparr>stdout := stdout h @ [Println err]\<rparr>))"
  using assms by (simp add: step_def task_step_def)

lemma step_AtDone:
  assumes "host_inv e h" and "exit_code h = None" and "get_pc t h = AtDone"
  shows "step e (Go t) h = Some (set_pc t Finished (h\<lparr>wg := wg h - 1\<rparr>))"
  using assms host_inv_AtDone [of e h t] by (simp add: step_def task_step_def)

section \<open>Exit of the service host\<close>

lemma run_both_fail:
  assumes "task_Start e GrpcTask = Inr (Returned (Some a))"
    and "task_Start e HTTPTask = Inr (Returned (Some b))"
  shows "run e [Main, Main, Main, Go GrpcTask, Go GrpcTask, Go GrpcTask, Go GrpcTask,
      Go HTTPTask, Go HTTPTask, Go HTTPTask, Go HTTPTask, Main, Main] init_host
    = Some \<lparr>wg = 0, main_pc = AtExit, grpc_pc = Finished, http_pc = Finished,
        stdout = [Println ''Starting server...'', Println a,
                  Println ''Starting HTTP server...'', Println b],
        exit_code = Some 1\<rparr>"
  using assms
  by (simp add: step_def main_step_def task_step_def init_host_def del: task_Start.simps)

lemma task_Start_env_bind_fails:
  "task_Start env_bind_fails GrpcTask = Inr (Returned (Some addr_in_use))"
  "task_Start env_bind_fails HTTPTask = Inr Blocked"
  by (simp_all add: env_bind_fails_def Start_def NewGrpcServer_def NewHTTPServer_def
      http_HandleFunc_def HTTPServer_Start_def)

lemma task_Start_env_http_fails:
  "task_Start env_http_fails GrpcTask = Inr Blocked"
  "task_Start env_http_fails HTTPTask = Inr (Returned (Some http_denied))"
  by (simp_all add: env_http_fails_def Start_def NewGrpcServer_def NewHTTPServer_def
      http_HandleFunc_def HTTPServer_Start_def)

lemma task_Start_env_both_fail:
  "task_Start env_both_fail GrpcTask = Inr (Returned (Some addr_in_use))"
  "task_Start env_both_fail HTTPTask = Inr (Returned (Some http_denied))"
  by (simp_all add: env_both_fail_def Start_def NewGrpcServer_def NewHTTPServer_def
      http_HandleFunc_def HTTPServer_Start_def)

text \<open>
  C9. In the wait-group host \<^verbatim>\<open>main\<close> first sets the counter to 2, and from then
  on the counter is 2 less the tasks that have signalled, a task signalling only once
  its \<^verbatim>\<open>Start\<close> has returned an error. So \<^verbatim>\<open>main\<close> gets past \<^verbatim>\<open>wg.Wait()\<close>,
  and the process exits through \<^verbatim>\<open>os.Exit(1)\<close>, only when both listeners have
  failed; while one listener keeps serving the host waits and the process does not
  exit, whatever the other listener did.
\<close>

theorem host_waits_for_both:
  assumes "reachable e h"
  shows "main_step init_host = Some (init_host\<lparr>wg := 2, main_pc := AtGoGrpc\<rparr>)
    \<and> (main_pc h \<noteq> AtAdd \<longrightarrow> wg h = 2 - signalled e h GrpcTask - signalled e h HTTPTask)
    \<and> (main_pc h = AtExit \<or> exit_code h = Some 1 \<longrightarrow>
          Start_error e GrpcTask \<noteq> None \<and> Start_error e HTTPTask \<noteq> None)
    \<and> (task_Start e t = Inr Blocked \<longrightarrow> exit_code h = None \<and> main_pc h \<noteq> AtExit)"
proof -
  from assms have inv: "host_inv e h"
    by (rule reachable_host_inv)
  have "main_step init_host = Some (init_host\<lparr>wg := 2, main_pc := AtGoGrpc\<rparr>)"
    by (simp add: main_step_def init_host_def)
  moreover have "main_pc h \<noteq> AtAdd \<longrightarrow> wg h = 2 - signalled e h GrpcTask - signalled e h HTTPTask"
    using inv by (simp add: host_inv_def signals_def)
  moreover have "main_pc h = AtExit \<or> exit_code h = Some 1 \<longrightarrow>
      Start_error e GrpcTask \<noteq> None \<and> Start_error e HTTPTask \<noteq> None"
    using host_inv_past_Wait [OF inv] host_inv_exit_1 [OF inv] by fastforce
  moreover have "task_Start e t = Inr Blocked \<longrightarrow> exit_code h = None \<and> main_pc h \<noteq> AtExit"
    using host_inv_blocked [OF inv] by blast
  ultimately show ?thesis by blast
qed

theorem host_waits_for_both_witness:
  "reachable env_http_fails
     \<lparr>wg = 1, main_pc = AtWait, grpc_pc = AtStart, http_pc = Finished,
      stdout = [Println ''Starting HTTP server...'', Println http_denied, Println ''Starting server...''],
      exit_code = None\<rparr>
   \<and> Start_error env_http_fails HTTPTask = Some http_denied
   \<and> task_Start env_http_fails GrpcTask = Inr Blocked
   \<and> signalled env_http_fails
        \<lparr>wg = 1, main_pc = AtWait, grpc_pc = AtStart, http_pc = Finished,
         stdout = [Println ''Starting HTTP server...'', Println http_denied, Println ''Starting server...''],
         exit_code = None\<rparr> HTTPTask = 1"
proof -
  let ?h = "\<lparr>wg = 1, main_pc = AtWait, grpc_pc = AtStart, http_pc = Finished,
      stdout = [Println ''Starting HTTP server...'', Println http_denied, Println ''Starting server...''],
      exit_code = None\<rparr>"
  have "run env_http_fails [Main, Main, Main, Go HTTPTask, Go HTTPTask, Go HTTPTask, Go HTTPTask,
      Go GrpcTask] init_host = Some ?h"
    using task_Start_env_http_fails
    by (simp add: step_def main_step_def task_step_def init_host_def del: task_Start.simps)
  then have r: "reachable env_http_fails ?h"
    by (rule reachable_run [OF reachable.initial])
  have s: "Start_error env_http_fails HTTPTask = Some http_denied"
    using task_Start_env_http_fails by (simp add: Start_error_Some)
  from host_waits_for_both [OF r, of GrpcTask] r s task_Start_env_http_fails
  show ?thesis by (simp add: signalled_def)
qed

text \<open>
  C2, as stated, fails. Let the RPC listener fail to bind while the health listener
  serves: the RPC task prints the error, calls \<^verbatim>\<open>wg.Done()\<close> and returns, the
  counter is 1, \<^verbatim>\<open>main\<close> stays in \<^verbatim>\<open>wg.Wait()\<close>, and no state the process can
  reach has an exit status.
\<close>

theorem single_failure_not_fatal:
  "Start_error env_bind_fails GrpcTask = Some addr_in_use
   \<and> run env_bind_fails [Main, Main, Main, Go GrpcTask, Go GrpcTask, Go GrpcTask, Go GrpcTask]
        init_host
      = Some \<lparr>wg = 1, main_pc = AtWait, grpc_pc = Finished, http_pc = AtPrintln,
          stdout = [Println ''Starting server...'', Println addr_in_use],
          exit_code = None\<rparr>
   \<and> \<not> (\<exists>h. reachable env_bind_fails h \<and> exit_code h \<noteq> None)"
proof -
  have "Start_error env_bind_fails GrpcTask = Some addr_in_use"
    using task_Start_env_bind_fails by (simp add: Start_error_Some)
  moreover have "run env_bind_fails
      [Main, Main, Main, Go GrpcTask, Go GrpcTask, Go GrpcTask, Go GrpcTask] init_host
      = Some \<lparr>wg = 1, main_pc = AtWait, grpc_pc = Finished, http_pc = AtPrintln,
          stdout = [Println ''Starting server...'', Println addr_in_use],
          exit_code = None\<rparr>"
    using task_Start_env_bind_fails
    by (simp add: step_def main_step_def task_step_def init_host_def del: task_Start.simps)
  moreover have "exit_code h = None" if "reachable env_bind_fails h" for h
    using host_inv_blocked [OF reachable_host_inv [OF that], of HTTPTask]
      task_Start_env_bind_fails by simp
  then have "\<not> (\<exists>h. reachable env_bind_fails h \<and> exit_code h \<noteq> None)"
    by auto
  ultimately show ?thesis by simp
qed

text \<open>
  C2, amended. When the \<^verbatim>\<open>Start\<close> of a listener returns an error, the next steps of
  its task are to print that error and then to call \<^verbatim>\<open>wg.Done()\<close>, which lowers
  the counter by one. While a listener keeps serving, the process does not end,
  whatever the other listener did. The host ends the process through
  \<^verbatim>\<open>os.Exit(1)\<close> only when the \<^verbatim>\<open>Start\<close> of both listeners has returned an error,
  and by then each task has printed its error. When both return an error the process
  does end that way: as long as it has not exited some thread can step, an exit has
  status 1, no run is longer than 15 steps, and there is a run that prints both errors
  and exits with status 1.
\<close>

theorem host_exit_1_after_both_failed:
  "(exit_code h = None \<and> get_pc t h = AtStart \<and> Start_error e t = Some err \<longrightarrow>
      step e (Go t) h = Some (set_pc t (AtPrintErr err) h))
   \<and> (reachable e h \<and> exit_code h = None \<and> get_pc t h = AtPrintErr err \<longrightarrow>
        Start_error e t = Some err
        \<and> step e (Go t) h = Some (set_pc t AtDone (h\<lparr>stdout := stdout h @ [Println err]\<rparr>)))
   \<and> (reachable e h \<and> exit_code h = None \<and> get_pc t h = AtDone \<longrightarrow>
        step e (Go t) h = Some (set_pc t Finished (h\<lparr>wg := wg h - 1\<rparr>)))
   \<and> (reachable e h \<and> task_Start e t = Inr Blocked \<longrightarrow> exit_code h = None)
   \<and> (reachable e h \<and> exit_code h = Some 1 \<longrightarrow>
      (\<exists>a b. Start_error e GrpcTask = Some a \<and> Start_error e HTTPTask = Some b
         \<and> Println a \<in> set (stdout h) \<and> Println b \<in> set (stdout h)))
   \<and> (Start_error e GrpcTask \<noteq> None \<and> Start_error e HTTPTask \<noteq> None \<and> reachable e h \<longrightarrow>
        (exit_code h = None \<longrightarrow> (\<exists>th h'. step e th h = Some h'))
        \<and> (exit_code h = None \<or> exit_code h = Some 1))
   \<and> (run e ths init_host = Some k \<longrightarrow> length ths \<le> 15)
   \<and> (Start_error e GrpcTask \<noteq> None \<and> Start_error e HTTPTask \<noteq> None \<longrightarrow>
        (\<exists>h'. reachable e h' \<and> exit_code h' = Some 1
           \<and> (\<exists>a b. stdout h' = [Println ''Starting server...'', Println a,
                                  Println ''Starting HTTP server...'', Println b])))"
proof (intro conjI impI)
  assume "exit_code h = None \<and> get_pc t h = AtStart \<and> Start_error e t = Some err"
  then show "step e (Go t) h = Some (set_pc t (AtPrintErr err) h)"
    by (simp add: step_AtStart)
next
  assume "reachable e h \<and> exit_code h = None \<and> get_pc t h = AtPrintErr err"
  then have "host_inv e h" and "get_pc t h = AtPrintErr err"
    by (simp_all add: reachable_host_inv)
  then show "Start_error e t = Some err"
    by (rule host_inv_AtPrintErr)
next
  assume "reachable e h \<and> exit_code h = None \<and> get_pc t h = AtPrintErr err"
  then show "step e (Go t) h = Some (set_pc t AtDone (h\<lparr>stdout := stdout h @ [Println err]\<rparr>))"
    by (simp add: step_AtPrintErr)
next
  assume "reachable e h \<and> exit_code h = None \<and> get_pc t h = AtDone"
  then have "host_inv e h" and "exit_code h = None" and "get_pc t h = AtDone"
    by (simp_all add: reachable_host_inv)
  then show "step e (Go t) h = Some (set_pc t Finished (h\<lparr>wg := wg h - 1\<rparr>))"
    by (rule step_AtDone)
next
  assume "reachable e h \<and> task_Start e t = Inr Blocked"
  then have "host_inv e h" and "task_Start e t = Inr Blocked"
    by (simp_all add: reachable_host_inv)
  then show "exit_code h = None"
    using host_inv_blocked [of e h t] by simp
next
  assume "reachable e h \<and> exit_code h = Some 1"
  then have inv: "host_inv e h" and ex: "exit_code h = Some 1"
    by (simp_all add: reachable_host_inv)
  have past: "main_pc h = AtExit"
    using inv ex by (rule host_inv_exit_1)
  from host_inv_past_Wait [OF inv past, of GrpcTask] host_inv_past_Wait [OF inv past, of HTTPTask]
  show "\<exists>a b. Start_error e GrpcTask = Some a \<and> Start_error e HTTPTask = Some b
         \<and> Println a \<in> set (stdout h) \<and> Println b \<in> set (stdout h)"
    by blast
next
  assume a: "Start_error e GrpcTask \<noteq> None \<and> Start_error e HTTPTask \<noteq> None \<and> reachable e h"
    and alive: "exit_code h = None"
  have fail: "Start_error e t \<noteq> None" for t
    using a by (cases t) simp_all
  from a have "host_inv e h"
    by (simp add: reachable_host_inv)
  then show "\<exists>th h'. step e th h = Some h'"
    using alive fail by (rule host_progress)
next
  assume a: "Start_error e GrpcTask \<noteq> None \<and> Start_error e HTTPTask \<noteq> None \<and> reachable e h"
  have fail: "Start_error e t \<noteq> None" for t
    using a by (cases t) simp_all
  from a have inv: "host_inv e h"
    by (simp add: reachable_host_inv)
  show "exit_code h = None \<or> exit_code h = Some 1"
    using host_inv_exit_code [OF inv _ fail] by (cases "exit_code h") auto
next
  assume "run e ths init_host = Some k"
  then show "length ths \<le> 15"
    by (rule run_length)
next
  assume "Start_error e GrpcTask \<noteq> None \<and> Start_error e HTTPTask \<noteq> None"
  then obtain a b where "task_Start e GrpcTask = Inr (Returned (Some a))"
    and "task_Start e HTTPTask = Inr (Returned (Some b))"
    by (auto simp: Start_error_Some)
  from reachable_run [OF reachable.initial run_both_fail [OF this]]
  have "reachable e
     \<lparr>wg = 0, main_pc = AtExit, grpc_pc = Finished, http_pc = Finished,
      stdout = [Println ''Starting server...'', Println a,
                Println ''Starting HTTP server...'', Println b],
      exit_code = Some 1\<rparr>" .
  then have "\<exists>h'. reachable e h' \<and> exit_code h' = Some 1
      \<and> stdout h' = [Println ''Starting server...'', Println a,
                      Println ''Starting HTTP server...'', Println b]"
    by (rule exI [of _ "\<lparr>wg = 0, main_pc = AtExit, grpc_pc = Finished, http_pc = Finished,
      stdout = [Println ''Starting server...'', Println a,
                Println ''Starting HTTP server...'', Println b],
      exit_code = Some 1\<rparr>", OF conjI]) simp
  then show "\<exists>h'. reachable e h' \<and> exit_code h' = Some 1
           \<and> (\<exists>a b. stdout h' = [Println ''Starting server...'', Println a,
                                  Println ''Starting HTTP server...'', Println b])"
    by blast
qed

theorem host_exit_1_after_both_failed_witness:
  "reachable env_both_fail
     \<lparr>wg = 0, main_pc = AtExit, grpc_pc = Finished, http_pc = Finished,
      stdout = [Println ''Starting server...'', Println addr_in_use,
                Println ''Starting HTTP server...'', Println http_denied],
      exit_code = Some 1\<rparr>
   \<and> Start_error env_both_fail GrpcTask = Some addr_in_use
   \<and> Start_error env_both_fail HTTPTask = Some http_denied
   \<and> reachable env_bind_fails
     \<lparr>wg = 2, main_pc = AtWait, grpc_pc = AtStart, http_pc = AtPrintln,
      stdout = [Println ''Starting server...''], exit_code = None\<rparr>
   \<and> step env_bind_fails (Go GrpcTask)
       \<lparr>wg = 2, main_pc = AtWait, grpc_pc = AtStart, http_pc = AtPrintln,
        stdout = [Println ''Starting server...''], exit_code = None\<rparr>
     = Some \<lparr>wg = 2, main_pc = AtWait, grpc_pc = AtPrintErr addr_in_use, http_pc = AtPrintln,
        stdout = [Println ''Starting server...''], exit_code = None\<rparr>
   \<and> step env_bind_fails (Go GrpcTask)
       \<lparr>wg = 2, main_pc = AtWait, grpc_pc = AtPrintErr addr_in_use, http_pc = AtPrintln,
        stdout = [Println ''Starting server...''], exit_code = None\<rparr>
     = Some \<lparr>wg = 2, main_pc = AtWait, grpc_pc = AtDone, http_pc = AtPrintln,
        stdout = [Println ''Starting server...'', Println addr_in_use], exit_code = None\<rparr>
   \<and> step env_bind_fails (Go GrpcTask)
       \<lparr>wg = 2, main_pc = AtWait, grpc_pc = AtDone, http_pc = AtPrintln,
        stdout = [Println ''Starting server...'', Println addr_in_use], exit_code = None\<rparr>
     = Some \<lparr>wg = 1, main_pc = AtWait, grpc_pc = Finished, http_pc = AtPrintln,
        stdout = [Println ''Starting server...'', Println addr_in_use], exit_code = None\<rparr>
   \<and> task_Start env_bind_fails HTTPTask = Inr Blocked"
proof -
  let ?h = "\<lparr>wg = 0, main_pc = AtExit, grpc_pc = Finished, http_pc = Finished,
      stdout = [Println ''Starting server...'', Println addr_in_use,
                Println ''Starting HTTP server...'', Println http_denied],
      exit_code = Some 1\<rparr>"
  let ?hS = "\<lparr>wg = 2, main_pc = AtWait, grpc_pc = AtStart, http_pc = AtPrintln,
      stdout = [Println ''Starting server...''], exit_code = None\<rparr>"
  let ?hP = "\<lparr>wg = 2, main_pc = AtWait, grpc_pc = AtPrintErr addr_in_use, http_pc = AtPrintln,
      stdout = [Println ''Starting server...''], exit_code = None\<rparr>"
  let ?hD = "\<lparr>wg = 2, main_pc = AtWait, grpc_pc = AtDone, http_pc = AtPrintln,
      stdout = [Println ''Starting server...'', Println addr_in_use], exit_code = None\<rparr>"
  have r: "reachable env_both_fail ?h"
    using reachable_run [OF reachable.initial
        run_both_fail [OF task_Start_env_both_fail(1) task_Start_env_both_fail(2)]] .
  have a: "Start_error env_both_fail GrpcTask = Some addr_in_use"
    and b: "Start_error env_both_fail HTTPTask = Some http_denied"
    using task_Start_env_both_fail by (simp_all add: Start_error_Some)
  have g: "Start_error env_bind_fails GrpcTask = Some addr_in_use"
    using task_Start_env_bind_fails by (simp add: Start_error_Some)
  have "run env_bind_fails [Main, Main, Main, Go GrpcTask] init_host = Some ?hS"
    by (simp add: step_def main_step_def task_step_def init_host_def del: task_Start.simps)
  then have rS: "reachable env_bind_fails ?hS"
    by (rule reachable_run [OF reachable.initial])
  have sS: "step env_bind_fails (Go GrpcTask) ?hS = Some ?hP"
    using host_exit_1_after_both_failed [where e = env_bind_fails and h = ?hS
        and t = GrpcTask and err = addr_in_use] g
    by simp
  have rP: "reachable env_bind_fails ?hP"
    using rS sS by (rule reachable.after)
  have sP: "step env_bind_fails (Go GrpcTask) ?hP = Some ?hD"
    using host_exit_1_after_both_failed [where e = env_bind_fails and h = ?hP
        and t = GrpcTask and err = addr_in_use] rP
    by simp
  have rD: "reachable env_bind_fails ?hD"
    using rP sP by (rule reachable.after)
  have sD: "step env_bind_fails (Go GrpcTask) ?hD
      = Some \<lparr>wg = 1, main_pc = AtWait, grpc_pc = Finished, http_pc = AtPrintln,
          stdout = [Println ''Starting server...'', Println addr_in_use], exit_code = None\<rparr>"
    using host_exit_1_after_both_failed [where e = env_bind_fails and h = ?hD
        and t = GrpcTask] rD
    by simp
  from host_exit_1_after_both_failed [where e = env_both_fail and h = ?h] r a b rS sS sP sD
    task_Start_env_bind_fails(2)
  show ?thesis by simp
qed

end
